theory Spec2Isabelle
  imports Complex_Main
begin

section \<open>Machine quantities\<close>

text \<open>
  The source is C++. Its \<^verbatim>\<open>unsigned int\<close> values are natural numbers here, and every
  conversion into \<^verbatim>\<open>unsigned int\<close> is written \<open>to_uint\<close> (reduction modulo \<open>2 ^ 32\<close>).
  Its \<^verbatim>\<open>int\<close> counter \<^verbatim>\<open>iterations_\<close> is an integer whose increment past \<open>INT_MAX\<close> is
  undefined behaviour, a fault of the model. The \<^verbatim>\<open>float\<close> and \<^verbatim>\<open>double\<close> quantities are
  real numbers. In the computation of \<^verbatim>\<open>k_n_star\<close> (lines 548--554) every operation is
  rounded, by roundings that are parameters of the embedding; elsewhere (the growth
  schedule \<^verbatim>\<open>T_n\<close>, \<^verbatim>\<open>T_prime_n\<close> and the quotients \<^verbatim>\<open>I / n\<close>) the arithmetic is exact.
  Infinities and NaN are outside the model (the quotient \<open>0 / 0\<close> that the source forms
  for an empty index vector is \<open>0\<close> here). The \<^verbatim>\<open>float n\<close> and
  \<^verbatim>\<open>float n_star\<close> of the source only ever hold a size plus a count of increments, so they
  are natural numbers here (exact in the source below \<open>2 ^ 24\<close>). A trailing underscore is
  not a legal end of a name in Isabelle, so the members \<^verbatim>\<open>threshold_\<close>, \<^verbatim>\<open>iterations_\<close>,
  ... lose it.
\<close>

definition DBL_MAX :: real where
  "DBL_MAX = 2 ^ 1024 - 2 ^ 971"

definition INT_MAX :: int where
  "INT_MAX = 2 ^ 31 - 1"

definition to_uint :: "int \<Rightarrow> nat" where
  "to_uint i = nat (i mod 2 ^ 32)"

text \<open>
  What the source can do besides returning: \<^verbatim>\<open>std::vector::at\<close> throws
  \<^verbatim>\<open>std::out_of_range\<close>; \<^verbatim>\<open>operator[]\<close> out of range, \<^verbatim>\<open>pop_back\<close> on an empty vector,
  signed overflow and a floating value converted to an integer type that cannot hold it
  are undefined behaviour.
\<close>

datatype fault = Undefined_Behaviour | Out_Of_Range

definition vec_at :: "'a list \<Rightarrow> nat \<Rightarrow> fault + 'a" where
  "vec_at v i = (if i < length v then Inr (v ! i) else Inl Out_Of_Range)"

section \<open>The segmentation object: distance threshold accessors\<close>

text \<open>
  \<^verbatim>\<open>SACSegmentation\<close> (sac_segmentation.h). Its fields carry the prefix \<open>seg\<close>, since the
  consensus engine below has members of the same names. The constructor of the source
  initialises every field listed here but \<^verbatim>\<open>threshold_\<close>.
\<close>

record SACSegmentation =
  seg_model_type :: int
  seg_method_type :: int
  seg_threshold :: real
  seg_optimize_coefficients :: bool
  seg_radius_min :: real
  seg_radius_max :: real
  seg_eps_angle :: real
  seg_max_iterations :: int
  seg_probability :: real

definition setDistanceThreshold :: "real \<Rightarrow> SACSegmentation \<Rightarrow> SACSegmentation" where
  "setDistanceThreshold t S = S\<lparr>seg_threshold := t\<rparr>"

definition getDistanceThreshold :: "SACSegmentation \<Rightarrow> real" where
  "getDistanceThreshold S = seg_threshold S"

definition setMaxIterations :: "int \<Rightarrow> SACSegmentation \<Rightarrow> SACSegmentation" where
  "setMaxIterations k S = S\<lparr>seg_max_iterations := k\<rparr>"

definition getMaxIterations :: "SACSegmentation \<Rightarrow> int" where
  "getMaxIterations S = seg_max_iterations S"

section \<open>The model contract and the engine's members\<close>

text \<open>
  \<^verbatim>\<open>sac_model_\<close> is an object of a class declared outside the source at hand. Its
  operations are parameters of the embedding: each reads the index vector \<^verbatim>\<open>indices_\<close> the
  object holds at the moment of the call (passed as an argument) and may change the rest
  of the object (a state of type \<open>'s\<close>, threaded through); none of them writes
  \<^verbatim>\<open>indices_\<close>. \<open>getSamples\<close> takes the value of the iteration counter and gives the
  selection. Coefficient vectors have type \<open>'c\<close>. A failed
  \<^verbatim>\<open>computeModelCoefficients\<close> (the source's \<^verbatim>\<open>false\<close>) is \<open>None\<close>.
\<close>

record ('c, 's) SampleConsensusModel =
  getSampleSize :: nat
  getSamples :: "int \<Rightarrow> int list \<Rightarrow> 's \<Rightarrow> int list \<times> 's"
  computeModelCoefficients :: "int list \<Rightarrow> int list \<Rightarrow> 's \<Rightarrow> 'c option \<times> 's"
  selectWithinDistance :: "'c \<Rightarrow> real \<Rightarrow> int list \<Rightarrow> 's \<Rightarrow> int list \<times> 's"

text \<open>The members of the engine that \<^verbatim>\<open>computeModel\<close> reads and writes.\<close>

record 'c SampleConsensus =
  threshold :: real
  max_iterations :: int
  iterations :: int
  inliers :: "int list"
  model :: "int list"
  model_coefficients :: 'c

text \<open>
  The state of one run: the members, the model object (\<open>indices\<close> is
  \<^verbatim>\<open>sac_model_->indices_\<close>, \<open>sac_state\<close> the rest of it) and the locals of
  \<^verbatim>\<open>computeModel\<close> that live across trials. The local \<^verbatim>\<open>n\<close> is \<open>n_pool\<close>.
\<close>

record ('c, 's) prosac = "'c SampleConsensus" +
  indices :: "int list"
  sac_state :: 's
  index_pool :: "int list"
  T_n :: real
  T_prime_n :: real
  I_N_best :: nat
  n_pool :: nat
  n_star :: nat
  epsilon_n_star :: real
  k_n_star :: nat

text \<open>
  What the platform computes for the numeric kernel of lines 530 and 548--554, as
  parameters of the embedding: the quantile of the boost library (the quantile of the
  complement of the binomial distribution with success fraction 0.1 at 0.05, as a function
  of the number of trials), the rounding of a real number to \<^verbatim>\<open>float\<close> and to
  \<^verbatim>\<open>double\<close>, \<^verbatim>\<open>std::pow\<close> on \<^verbatim>\<open>float\<close> arguments, and \<^verbatim>\<open>log\<close>. An arithmetic
  operation of the source on \<^verbatim>\<open>float\<close> (\<^verbatim>\<open>double\<close>) values is the rounding of the exact
  result.
\<close>

record numerics =
  binomial_quantile :: "nat \<Rightarrow> real"
  to_float :: "real \<Rightarrow> real"
  to_double :: "real \<Rightarrow> real"
  pow_float :: "real \<Rightarrow> real \<Rightarrow> real"
  log_double :: "real \<Rightarrow> real"

datatype 'a flow = Break 'a | Next 'a

section \<open>ProgressiveSampleConsensus::computeModel\<close>

definition T_N :: real where
  "T_N = 200000"

text \<open>Lines 410--412: \<^verbatim>\<open>for (i = 0; i < m; ++i) T_n *= (float)(m - i) / (float)(N - i)\<close>.\<close>

definition initial_T_n :: "nat \<Rightarrow> nat \<Rightarrow> real" where
  "initial_T_n m N =
     fold (\<lambda>i T. T * (real (to_uint (int m - int i)) / real (to_uint (int N - int i))))
       [0..<m] T_N"

text \<open>
  Lines 406--437. The pool is filled with \<^verbatim>\<open>indices_->operator[](i)\<close> for \<open>i < m\<close>, which is
  undefined behaviour when the vector is shorter than \<open>m\<close>.
\<close>

definition prosac_init ::
  "('c, 's) SampleConsensusModel \<Rightarrow> 'c SampleConsensus \<Rightarrow> int list \<Rightarrow> 's
     \<Rightarrow> fault + ('c, 's) prosac" where
  "prosac_init M e idx ms =
     (let N = to_uint (int (length idx));
          m = getSampleSize M
      in if length idx < m then Inl Undefined_Behaviour
         else Inr (SampleConsensus.extend (e\<lparr>iterations := 0\<rparr>)
           (prosac.fields idx ms (map (\<lambda>i. idx ! i) [0..<m])
              (initial_T_n m N) 1 0 m N (real 0 / real N) (nat \<lfloor>T_N\<rfloor>))))"

text \<open>Step 1, lines 446--457: the pool grows by one element.\<close>

definition grow_pool ::
  "('c, 's) SampleConsensusModel \<Rightarrow> nat \<Rightarrow> ('c, 's) prosac \<Rightarrow> fault + ('c, 's) prosac flow" where
  "grow_pool M N s =
     (if real_of_int (iterations s) = T_prime_n s \<and> n_pool s < n_star s then
        (let n' = n_pool s + 1 in
         if N \<le> n' then Inr (Break (s\<lparr>n_pool := n'\<rparr>))
         else
           (case vec_at (indices s) (n' - 1) of
              Inl f \<Rightarrow> Inl f
            | Inr x \<Rightarrow>
                (let T_n_minus_1 = T_n s;
                     T_n' = T_n s * ((real n' + 1) / (real n' + 1 - real (getSampleSize M)))
                 in Inr (Next (s\<lparr>index_pool := index_pool s @ [x],
                                 T_n := T_n',
                                 T_prime_n := T_prime_n s + real_of_int \<lceil>T_n' - T_n_minus_1\<rceil>,
                                 n_pool := n'\<rparr>)))))
      else Inr (Next s))"

text \<open>
  Step 2, lines 460--470: the pool takes the place of \<^verbatim>\<open>indices_\<close> for the draw, and the
  two vectors are swapped back after it. \<^verbatim>\<open>n - 1\<close> is a \<^verbatim>\<open>float\<close> converted to an index:
  undefined when negative.
\<close>

definition swap_indices :: "('c, 's) prosac \<Rightarrow> ('c, 's) prosac" where
  "swap_indices s = s\<lparr>indices := index_pool s, index_pool := indices s\<rparr>"

definition draw_samples ::
  "('c, 's) SampleConsensusModel \<Rightarrow> ('c, 's) prosac \<Rightarrow> fault + (int list \<times> ('c, 's) prosac)" where
  "draw_samples M s =
     (let s1 = swap_indices s;
          (selection, ms) = getSamples M (iterations s1) (indices s1) (sac_state s1);
          s2 = s1\<lparr>sac_state := ms\<rparr>
      in if T_prime_n s2 < real_of_int (iterations s2) then
           (if selection = [] then Inl Undefined_Behaviour
            else if n_pool s2 = 0 then Inl Undefined_Behaviour
            else
              (case vec_at (indices s2) (n_pool s2 - 1) of
                 Inl f \<Rightarrow> Inl f
               | Inr x \<Rightarrow> Inr (butlast selection @ [x], swap_indices s2)))
         else Inr (selection, swap_indices s2))"

text \<open>
  Lines 511--539: the scan over the sorted inliers from the last one down. The arguments
  are the quantile function (of the boost library: the quantile of the complement of the
  binomial distribution with success fraction 0.1 at 0.05, as a function of the number of
  trials), \<open>m\<close>, \<open>epsilon_n_star\<close>, the inliers still to visit, \<open>I_possible_n_star\<close>, and
  \<open>(possible_n_star_best, I_possible_n_star_best, epsilon_possible_n_star_best)\<close>.
\<close>

fun n_star_scan ::
  "(nat \<Rightarrow> real) \<Rightarrow> nat \<Rightarrow> real \<Rightarrow> int list \<Rightarrow> nat \<Rightarrow> nat \<times> nat \<times> real \<Rightarrow> nat \<times> nat \<times> real" where
  "n_star_scan Q m eps_star [] I_possible_n_star best = best"
| "n_star_scan Q m eps_star (last_inlier # rest) I_possible_n_star best =
     (let possible_n_star = to_uint (last_inlier + 1) in
      if possible_n_star \<le> m then best
      else
        (let epsilon_possible_n_star = real I_possible_n_star / real possible_n_star in
         if eps_star < epsilon_possible_n_star \<and> snd (snd best) < epsilon_possible_n_star then
           (let I_possible_n_star_min = to_uint (int m + \<lceil>Q possible_n_star\<rceil>) in
            if I_possible_n_star < I_possible_n_star_min then best
            else n_star_scan Q m eps_star rest (to_uint (int I_possible_n_star - 1))
                   (possible_n_star, I_possible_n_star, epsilon_possible_n_star))
         else n_star_scan Q m eps_star rest (to_uint (int I_possible_n_star - 1)) best))"

text \<open>
  Line 548: \<^verbatim>\<open>float bottom_log = 1 - std::pow (epsilon_n_star, static_cast<float>(m))\<close>,
  computed in \<^verbatim>\<open>float\<close>. \<^verbatim>\<open>epsilon_n_star\<close> is a \<^verbatim>\<open>float\<close> variable: what it holds is
  the rounding of the quotient that the embedding keeps exact.
\<close>

definition bottom_log :: "numerics \<Rightarrow> real \<Rightarrow> nat \<Rightarrow> real" where
  "bottom_log Q eps m =
     to_float Q (1 - pow_float Q (to_float Q eps) (to_float Q (real m)))"

text \<open>Line 554: \<^verbatim>\<open>log (0.05) / log (bottom_log)\<close>, computed in \<^verbatim>\<open>double\<close>.\<close>

definition log_quotient :: "numerics \<Rightarrow> real \<Rightarrow> real" where
  "log_quotient Q b = to_double Q (log_double Q (to_double Q 0.05) / log_double Q b)"

text \<open>
  Lines 548--556. \<^verbatim>\<open>(int)ceil (log (0.05) / log (bottom_log))\<close> is undefined when the
  quotient is NaN (\<open>bottom_log < 0\<close>), infinite (the logarithm of \<open>bottom_log\<close> is 0) or
  outside the range of \<^verbatim>\<open>int\<close>.
\<close>

definition new_k_n_star :: "numerics \<Rightarrow> real \<Rightarrow> nat \<Rightarrow> fault + nat" where
  "new_k_n_star Q eps m =
     (case
        (if bottom_log Q eps m = 0 then Inr 1
         else if bottom_log Q eps m = 1 then Inr (nat \<lfloor>T_N\<rfloor>)
         else if bottom_log Q eps m < 0 \<or> log_double Q (bottom_log Q eps m) = 0
           then Inl Undefined_Behaviour
         else
           (let c = \<lceil>log_quotient Q (bottom_log Q eps m)\<rceil> in
            if c < - (2 ^ 31) \<or> INT_MAX < c then Inl Undefined_Behaviour
            else Inr (to_uint c)))
      of
        Inl f \<Rightarrow> Inl f
      | Inr k \<Rightarrow> Inr (max k (to_uint (2 * int m))))"

text \<open>Lines 494--557: the body of \<^verbatim>\<open>if (I_N > I_N_best)\<close>.\<close>

definition record_best ::
  "('c, 's) SampleConsensusModel \<Rightarrow> numerics \<Rightarrow> nat \<Rightarrow> int list \<Rightarrow> 'c \<Rightarrow> int list
     \<Rightarrow> ('c, 's) prosac \<Rightarrow> fault + ('c, 's) prosac" where
  "record_best M Q N selection coeffs inl s =
     (let m = getSampleSize M;
          I_N = to_uint (int (length inl));
          s1 = s\<lparr>inliers := inl, model := selection, model_coefficients := coeffs,
                 I_N_best := I_N\<rparr>;
          best = n_star_scan (binomial_quantile Q) m (epsilon_n_star s1) (rev (sort inl)) I_N
                   (N, I_N, real I_N / real N)
      in if epsilon_n_star s1 < snd (snd best) then
           (case new_k_n_star Q (snd (snd best)) m of
              Inl f \<Rightarrow> Inl f
            | Inr k \<Rightarrow> Inr (s1\<lparr>epsilon_n_star := snd (snd best), k_n_star := k\<rparr>))
         else Inr s1)"

text \<open>\<^verbatim>\<open>++iterations_\<close>.\<close>

definition incr_iterations :: "('c, 's) prosac \<Rightarrow> fault + ('c, 's) prosac" where
  "incr_iterations s =
     (if INT_MAX \<le> iterations s then Inl Undefined_Behaviour
      else Inr (s\<lparr>iterations := iterations s + 1\<rparr>))"

text \<open>
  One pass through the body of the \<^verbatim>\<open>while\<close> loop, lines 441--569. \<open>Break\<close> is a
  \<^verbatim>\<open>break\<close>; \<open>Next\<close> is the end of the body or the \<^verbatim>\<open>continue\<close> of line 482.
\<close>

definition trial ::
  "('c, 's) SampleConsensusModel \<Rightarrow> numerics \<Rightarrow> nat \<Rightarrow> ('c, 's) prosac
     \<Rightarrow> fault + ('c, 's) prosac flow" where
  "trial M Q N s =
     (case grow_pool M N s of
        Inl f \<Rightarrow> Inl f
      | Inr (Break s1) \<Rightarrow> Inr (Break s1)
      | Inr (Next s1) \<Rightarrow>
          (case draw_samples M s1 of
             Inl f \<Rightarrow> Inl f
           | Inr (selection, s2) \<Rightarrow>
               if selection = [] then Inr (Break s2)
               else
                 (case computeModelCoefficients M selection (indices s2) (sac_state s2) of
                    (None, ms) \<Rightarrow>
                      (case incr_iterations (s2\<lparr>sac_state := ms\<rparr>) of
                         Inl f \<Rightarrow> Inl f
                       | Inr s3 \<Rightarrow> Inr (Next s3))
                  | (Some coeffs, ms) \<Rightarrow>
                      (let s3 = s2\<lparr>sac_state := ms\<rparr>;
                           (inl, ms') = selectWithinDistance M coeffs (threshold s3)
                                          (indices s3) (sac_state s3);
                           s4 = s3\<lparr>sac_state := ms'\<rparr>;
                           I_N = to_uint (int (length inl))
                       in case (if I_N_best s4 < I_N
                                then record_best M Q N selection coeffs inl s4
                                else Inr s4) of
                            Inl f \<Rightarrow> Inl f
                          | Inr s5 \<Rightarrow>
                              (case incr_iterations s5 of
                                 Inl f \<Rightarrow> Inl f
                               | Inr s6 \<Rightarrow>
                                   if max_iterations s6 < iterations s6 then Inr (Break s6)
                                   else Inr (Next s6))))))"

lemma incr_iterations_Inr:
  "incr_iterations s = Inr s' \<Longrightarrow>
     s' = s\<lparr>iterations := iterations s + 1\<rparr> \<and> iterations s < INT_MAX"
  by (auto simp: incr_iterations_def split: if_splits)

text \<open>The state a pass through the loop body ends in, whichever way it ends.\<close>

fun flow_state :: "'a flow \<Rightarrow> 'a" where
  "flow_state (Break s) = s"
| "flow_state (Next s) = s"

lemma grow_pool_frame:
  assumes "grow_pool M N s = Inr r"
  shows "iterations (flow_state r) = iterations s"
    and "indices (flow_state r) = indices s"
    and "sac_state (flow_state r) = sac_state s"
    and "I_N_best (flow_state r) = I_N_best s"
    and "inliers (flow_state r) = inliers s"
    and "model (flow_state r) = model s"
    and "model_coefficients (flow_state r) = model_coefficients s"
    and "threshold (flow_state r) = threshold s"
    and "max_iterations (flow_state r) = max_iterations s"
    and "n_star (flow_state r) = n_star s"
    and "epsilon_n_star (flow_state r) = epsilon_n_star s"
    and "k_n_star (flow_state r) = k_n_star s"
  using assms
  by (auto simp: grow_pool_def Let_def vec_at_def split: if_splits sum.splits)

lemma draw_samples_frame:
  assumes "draw_samples M s = Inr (sel, s')"
  shows "iterations s' = iterations s"
    and "indices s' = indices s"
    and "index_pool s' = index_pool s"
    and "I_N_best s' = I_N_best s"
    and "inliers s' = inliers s"
    and "model s' = model s"
    and "model_coefficients s' = model_coefficients s"
    and "threshold s' = threshold s"
    and "max_iterations s' = max_iterations s"
    and "n_star s' = n_star s"
    and "n_pool s' = n_pool s"
    and "T_n s' = T_n s"
    and "T_prime_n s' = T_prime_n s"
    and "epsilon_n_star s' = epsilon_n_star s"
    and "k_n_star s' = k_n_star s"
  using assms
  by (auto simp: draw_samples_def swap_indices_def Let_def vec_at_def
      split: if_splits sum.splits prod.splits)

lemma record_best_frame:
  assumes "record_best M Q N sel co inl s = Inr s'"
  shows "iterations s' = iterations s"
    and "indices s' = indices s"
    and "index_pool s' = index_pool s"
    and "sac_state s' = sac_state s"
    and "threshold s' = threshold s"
    and "max_iterations s' = max_iterations s"
    and "n_star s' = n_star s"
    and "n_pool s' = n_pool s"
    and "T_n s' = T_n s"
    and "T_prime_n s' = T_prime_n s"
    and "I_N_best s' = to_uint (int (length inl))"
    and "inliers s' = inl"
    and "model s' = sel"
    and "model_coefficients s' = co"
  using assms
  by (auto simp: record_best_def Let_def split: if_splits sum.splits)

lemma trial_Next_iterations:
  assumes "trial M Q N s = Inr (Next s')"
  shows "iterations s' = iterations s + 1 \<and> iterations s < INT_MAX"
proof -
  from assms obtain s1 where g: "grow_pool M N s = Inr (Next s1)"
    by (auto simp: trial_def split: sum.splits flow.splits)
  from assms g obtain sel s2 where d: "draw_samples M s1 = Inr (sel, s2)"
    by (auto simp: trial_def split: sum.splits)
  have i1: "iterations s1 = iterations s"
    using grow_pool_frame(1)[OF g] by simp
  have i2: "iterations s2 = iterations s1"
    using draw_samples_frame(1)[OF d] .
  show ?thesis
    using assms g d i1 i2
    by (auto simp: trial_def Let_def split: sum.splits if_splits option.splits prod.splits
        dest!: incr_iterations_Inr dest: record_best_frame(1))
qed

text \<open>
  The \<^verbatim>\<open>while\<close> loop of line 440. Every pass that does not leave the loop increments
  \<^verbatim>\<open>iterations_\<close>, which cannot pass \<open>INT_MAX\<close>: the loop ends on every input.
\<close>

function prosac_loop ::
  "('c, 's) SampleConsensusModel \<Rightarrow> numerics \<Rightarrow> nat \<Rightarrow> ('c, 's) prosac
     \<Rightarrow> fault + ('c, 's) prosac" where
  "prosac_loop M Q N s =
     (if to_uint (iterations s) < k_n_star s then
        (case trial M Q N s of
           Inl f \<Rightarrow> Inl f
         | Inr (Break s') \<Rightarrow> Inr s'
         | Inr (Next s') \<Rightarrow> prosac_loop M Q N s')
      else Inr s)"
  by pat_completeness auto
termination
proof (relation "measure (\<lambda>(M, Q, N, s). nat (INT_MAX - iterations s))")
  show "wf (measure (\<lambda>(M, Q, N, s). nat (INT_MAX - iterations s)))"
    by simp
next
  fix M :: "('c, 's) SampleConsensusModel" and Q N s r s'
  assume "trial M Q N s = Inr r" and "r = Next s'"
  then have "iterations s' = iterations s + 1 \<and> iterations s < INT_MAX"
    using trial_Next_iterations by blast
  then show "((M, Q, N, s'), (M, Q, N, s)) \<in> measure (\<lambda>(M, Q, N, s). nat (INT_MAX - iterations s))"
    by simp
qed

declare prosac_loop.simps [simp del]

text \<open>
  \<^verbatim>\<open>computeModel\<close>, lines 397--583. The result is the returned \<^verbatim>\<open>bool\<close>, the members of
  the engine, and the model object (its index vector and the rest of it) as the call
  leaves them.
\<close>

definition computeModel ::
  "('c, 's) SampleConsensusModel \<Rightarrow> numerics \<Rightarrow> 'c SampleConsensus \<Rightarrow> int list \<Rightarrow> 's
     \<Rightarrow> fault + (bool \<times> 'c SampleConsensus \<times> int list \<times> 's)" where
  "computeModel M Q e idx ms =
     (if threshold e = DBL_MAX then Inr (False, e, idx, ms)
      else
        (case prosac_init M e idx ms of
           Inl f \<Rightarrow> Inl f
         | Inr s0 \<Rightarrow>
             (case prosac_loop M Q (to_uint (int (length idx))) s0 of
                Inl f \<Rightarrow> Inl f
              | Inr s \<Rightarrow>
                  if model s = []
                  then Inr (False, SampleConsensus.truncate (s\<lparr>inliers := []\<rparr>),
                            indices s, sac_state s)
                  else Inr (True, SampleConsensus.truncate s, indices s, sac_state s))))"

section \<open>Runs\<close>

text \<open>
  \<open>trials M Q N s0 s\<close>: in the run of the loop that starts in state \<open>s0\<close>, the state \<open>s\<close>
  stands at the head of the loop (before the test of line 440).
\<close>

inductive trials ::
  "('c, 's) SampleConsensusModel \<Rightarrow> numerics \<Rightarrow> nat \<Rightarrow> ('c, 's) prosac \<Rightarrow> ('c, 's) prosac \<Rightarrow> bool"
  for M Q N s0 where
  start: "trials M Q N s0 s0"
| pass: "trials M Q N s0 s \<Longrightarrow> to_uint (iterations s) < k_n_star s \<Longrightarrow>
         trial M Q N s = Inr (Next s') \<Longrightarrow> trials M Q N s0 s'"

text \<open>
  The invariant of the pool at the head of the loop: the model holds the full index vector
  \<open>idx\<close>, \<open>n_star\<close> is its size, and the pool is its prefix of length \<open>n\<close>, between the
  sample size and the size of the vector.
\<close>

definition pool_inv :: "nat \<Rightarrow> int list \<Rightarrow> ('c, 's) prosac \<Rightarrow> bool" where
  "pool_inv m idx s \<longleftrightarrow>
     indices s = idx \<and> n_star s = length idx \<and> m \<le> n_pool s \<and> n_pool s \<le> length idx \<and>
     index_pool s = take (n_pool s) idx"

text \<open>
  The model \<open>M\<close> with the index vector its coefficient estimate and its inlier selection
  read replaced by a fixed vector \<open>idx\<close>, whatever the object holds at the call.
\<close>

definition on_full_indices ::
  "int list \<Rightarrow> ('c, 's) SampleConsensusModel \<Rightarrow> ('c, 's) SampleConsensusModel" where
  "on_full_indices idx M =
     M\<lparr>computeModelCoefficients := (\<lambda>sel ix. computeModelCoefficients M sel idx),
       selectWithinDistance := (\<lambda>co t ix. selectWithinDistance M co t idx)\<rparr>"

section \<open>Basic facts\<close>

lemma to_uint_small [simp]: "0 \<le> i \<Longrightarrow> i < 2 ^ 32 \<Longrightarrow> to_uint i = nat i"
  by (simp add: to_uint_def)

lemma trial_cases [consumes 1, case_names grow_break empty failed counted]:
  assumes "trial M Q N s = Inr r"
  obtains
    s1 where "grow_pool M N s = Inr (Break s1)" "r = Break s1"
  | s1 s2 where "grow_pool M N s = Inr (Next s1)" "draw_samples M s1 = Inr ([], s2)"
      "r = Break s2"
  | s1 sel s2 ms s3 where "grow_pool M N s = Inr (Next s1)" "draw_samples M s1 = Inr (sel, s2)"
      "sel \<noteq> []"
      "computeModelCoefficients M sel (indices s2) (sac_state s2) = (None, ms)"
      "incr_iterations (s2\<lparr>sac_state := ms\<rparr>) = Inr s3" "r = Next s3"
  | s1 sel s2 co ms inl ms' s5 s6 where "grow_pool M N s = Inr (Next s1)"
      "draw_samples M s1 = Inr (sel, s2)" "sel \<noteq> []"
      "computeModelCoefficients M sel (indices s2) (sac_state s2) = (Some co, ms)"
      "selectWithinDistance M co (threshold s2) (indices s2) ms = (inl, ms')"
      "if I_N_best s2 < to_uint (int (length inl))
       then record_best M Q N sel co inl (s2\<lparr>sac_state := ms'\<rparr>) = Inr s5
       else s5 = s2\<lparr>sac_state := ms'\<rparr>"
      "incr_iterations s5 = Inr s6"
      "r = (if max_iterations s6 < iterations s6 then Break s6 else Next s6)"
proof (cases "grow_pool M N s")
  case (Inl f)
  with assms show ?thesis by (simp add: trial_def)
next
  case (Inr g)
  show ?thesis
  proof (cases g)
    case (Break s1)
    with Inr assms have "r = Break s1" by (simp add: trial_def)
    with Inr Break show ?thesis using that(1) by blast
  next
    case (Next s1)
    note g = Inr [unfolded Next]
    show ?thesis
    proof (cases "draw_samples M s1")
      case (Inl f)
      with g assms show ?thesis by (simp add: trial_def)
    next
      case (Inr d)
      obtain sel s2 where d: "d = (sel, s2)" by (cases d)
      note dr = Inr [unfolded d]
      show ?thesis
      proof (cases "sel = []")
        case True
        with g dr assms have "r = Break s2" by (simp add: trial_def)
        with g dr True show ?thesis using that(2) by blast
      next
        case False
        obtain co' ms where c: "computeModelCoefficients M sel (indices s2) (sac_state s2) = (co', ms)"
          by (cases "computeModelCoefficients M sel (indices s2) (sac_state s2)")
        show ?thesis
        proof (cases co')
          case None
          with g dr False c assms obtain s3 where
            "incr_iterations (s2\<lparr>sac_state := ms\<rparr>) = Inr s3" "r = Next s3"
            by (auto simp: trial_def split: sum.splits)
          with g dr False c None show ?thesis using that(3) by blast
        next
          case (Some co)
          obtain inl ms' where w: "selectWithinDistance M co (threshold s2) (indices s2) ms = (inl, ms')"
            by (cases "selectWithinDistance M co (threshold s2) (indices s2) ms")
          from g dr False c Some w assms obtain s5 s6 where
            "if I_N_best s2 < to_uint (int (length inl))
             then record_best M Q N sel co inl (s2\<lparr>sac_state := ms'\<rparr>) = Inr s5
             else s5 = s2\<lparr>sac_state := ms'\<rparr>"
            "incr_iterations s5 = Inr s6"
            "r = (if max_iterations s6 < iterations s6 then Break s6 else Next s6)"
            by (auto simp: trial_def Let_def split: sum.splits if_splits)
          with g dr False c Some w show ?thesis using that(4) by blast
        qed
      qed
    qed
  qed
qed

lemma prosac_loop_rule:
  assumes "prosac_loop M Q N s = Inr sf"
    and "I s"
    and "\<And>s s'. I s \<Longrightarrow> to_uint (iterations s) < k_n_star s \<Longrightarrow> trial M Q N s = Inr (Next s') \<Longrightarrow> I s'"
    and "\<And>s s'. I s \<Longrightarrow> to_uint (iterations s) < k_n_star s \<Longrightarrow> trial M Q N s = Inr (Break s') \<Longrightarrow> R s'"
    and "\<And>s. I s \<Longrightarrow> \<not> to_uint (iterations s) < k_n_star s \<Longrightarrow> R s"
  shows "R sf"
  using assms
proof (induction M Q N s rule: prosac_loop.induct)
  case (1 M Q N s)
  show ?case
  proof (cases "to_uint (iterations s) < k_n_star s")
    case False
    with "1.prems"(1) have "sf = s" by (simp add: prosac_loop.simps)
    with False "1.prems"(2,5) show ?thesis by simp
  next
    case True
    show ?thesis
    proof (cases "trial M Q N s")
      case (Inl f)
      with True "1.prems"(1) show ?thesis by (simp add: prosac_loop.simps)
    next
      case (Inr r)
      show ?thesis
      proof (cases r)
        case (Break s')
        with Inr True "1.prems"(1) have "sf = s'" by (simp add: prosac_loop.simps)
        with Inr Break True "1.prems"(2,4) show ?thesis by simp
      next
        case (Next s')
        with Inr True "1.prems"(1) have run': "prosac_loop M Q N s' = Inr sf"
          by (simp add: prosac_loop.simps)
        have "I s'" using "1.prems"(3) [OF "1.prems"(2) True] Inr Next by simp
        then show ?thesis
          using "1.IH" [OF True Inr Next run'] "1.prems"(3,4,5) by blast
      qed
    qed
  qed
qed

lemma grow_pool_inv:
  assumes "grow_pool M (length idx) s = Inr r" and "pool_inv m idx s"
  shows "n_pool s \<le> n_pool (flow_state r)"
    and "n_pool (flow_state r) \<le> n_pool s + 1"
    and "n_pool (flow_state r) \<le> length idx"
    and "r = Next s1 \<Longrightarrow> pool_inv m idx s1"
  using assms
  by (auto simp: grow_pool_def pool_inv_def Let_def vec_at_def take_Suc_conv_app_nth
      split: if_splits)

lemma flow_state_if [simp]: "flow_state (if c then Break x else Next x) = x"
  by simp

lemma trial_pool:
  assumes "trial M Q N s = Inr r"
  shows "\<exists>g. grow_pool M N s = Inr g
    \<and> n_pool (flow_state r) = n_pool (flow_state g)
    \<and> index_pool (flow_state r) = index_pool (flow_state g)
    \<and> indices (flow_state r) = indices s
    \<and> n_star (flow_state r) = n_star s
    \<and> (\<forall>s'. r = Next s' \<longrightarrow> (\<exists>s1. g = Next s1))"
  using assms
proof (cases rule: trial_cases)
  case (grow_break s1)
  then show ?thesis using grow_pool_frame [OF grow_break(1)] by simp
next
  case (empty s1 s2)
  then show ?thesis
    using grow_pool_frame [OF empty(1)] draw_samples_frame [OF empty(2)]
    by simp
next
  case (failed s1 sel s2 ms s3)
  then show ?thesis
    using grow_pool_frame [OF failed(1)] draw_samples_frame [OF failed(2)]
      incr_iterations_Inr [OF failed(5)]
    by simp
next
  case (counted s1 sel s2 co ms inl ms' s5 s6)
  have s5: "n_pool s5 = n_pool s2 \<and> index_pool s5 = index_pool s2 \<and> indices s5 = indices s2
      \<and> n_star s5 = n_star s2"
    using counted(6) by (auto split: if_splits dest: record_best_frame)
  have s6: "s6 = s5\<lparr>iterations := iterations s5 + 1\<rparr>"
    using incr_iterations_Inr [OF counted(7)] by simp
  have "flow_state r = s6" using counted(8) by simp
  then show ?thesis
    using grow_pool_frame [OF counted(1)] draw_samples_frame [OF counted(2)] s5 s6 counted(1)
    by simp
qed

lemma trial_pool_inv:
  assumes "trial M Q (length idx) s = Inr r" and "pool_inv m idx s"
  shows "n_pool s \<le> n_pool (flow_state r)"
    and "n_pool (flow_state r) \<le> n_pool s + 1"
    and "n_pool (flow_state r) \<le> length idx"
    and "indices (flow_state r) = idx"
    and "r = Next s' \<Longrightarrow> pool_inv m idx s'"
proof -
  obtain g where g: "grow_pool M (length idx) s = Inr g"
    and n: "n_pool (flow_state r) = n_pool (flow_state g)"
    and p: "index_pool (flow_state r) = index_pool (flow_state g)"
    and i: "indices (flow_state r) = indices s"
    and ns: "n_star (flow_state r) = n_star s"
    and nx: "\<forall>s'. r = Next s' \<longrightarrow> (\<exists>s1. g = Next s1)"
    using trial_pool [OF assms(1)] by (elim exE conjE) simp
  show "n_pool s \<le> n_pool (flow_state r)" "n_pool (flow_state r) \<le> n_pool s + 1"
    "n_pool (flow_state r) \<le> length idx"
    using grow_pool_inv(1-3) [OF g assms(2)] n by simp_all
  show "indices (flow_state r) = idx" using i assms(2) by (simp add: pool_inv_def)
  show "pool_inv m idx s'" if "r = Next s'"
  proof -
    from nx that obtain s1 where s1: "g = Next s1" by blast
    have "pool_inv m idx s1" using grow_pool_inv(4) [OF g assms(2) s1] .
    then show ?thesis using n p i ns that s1 assms(2) by (simp add: pool_inv_def)
  qed
qed

lemma map_nth_upt_take: "k \<le> length xs \<Longrightarrow> map (\<lambda>i. xs ! i) [0..<k] = take k xs"
proof -
  assume k: "k \<le> length xs"
  have "take k xs = take k (map (\<lambda>i. xs ! i) [0..<length xs])" by (simp add: map_nth)
  also have "\<dots> = map (\<lambda>i. xs ! i) (take k [0..<length xs])" by (rule take_map)
  also have "take k [0..<length xs] = [0..<k]" using k by (simp add: take_upt)
  finally show ?thesis by simp
qed

lemma prosac_init_inv:
  assumes "prosac_init M e idx ms = Inr s0" and "length idx < 2 ^ 32"
  shows "pool_inv (getSampleSize M) idx s0"
  using assms
  by (auto simp: prosac_init_def pool_inv_def Let_def SampleConsensus.extend_def
      prosac.fields_def map_nth_upt_take split: if_splits)

lemma trials_pool_inv:
  assumes "trials M Q (length idx) s0 s" and "pool_inv m idx s0"
  shows "pool_inv m idx s \<and> n_pool s0 \<le> n_pool s"
  using assms
proof (induction rule: trials.induct)
  case start
  then show ?case by simp
next
  case (pass s s')
  then have inv: "pool_inv m idx s" and le: "n_pool s0 \<le> n_pool s" by simp_all
  have "pool_inv m idx s'"
    using trial_pool_inv(5) [OF pass.hyps(3) inv] by simp
  moreover have "n_pool s \<le> n_pool s'"
    using trial_pool_inv(1) [OF pass.hyps(3) inv] by simp
  ultimately show ?case using le by simp
qed

lemma prosac_loop_trials:
  assumes "prosac_loop M Q N s0 = Inr sf"
  shows "\<exists>s. trials M Q N s0 s \<and>
           (sf = s \<and> \<not> to_uint (iterations s) < k_n_star s \<or>
            to_uint (iterations s) < k_n_star s \<and> trial M Q N s = Inr (Break sf))"
    (is "?R sf")
proof (rule prosac_loop_rule [OF assms, where I = "trials M Q N s0" and R = ?R])
  show "trials M Q N s0 s0" by (rule trials.start)
next
  fix x x' assume "trials M Q N s0 x" "to_uint (iterations x) < k_n_star x"
    "trial M Q N x = Inr (Next x')"
  then show "trials M Q N s0 x'" by (rule trials.pass)
next
  fix x x' assume "trials M Q N s0 x" "to_uint (iterations x) < k_n_star x"
    "trial M Q N x = Inr (Break x')"
  then show "?R x'" by blast
next
  fix x assume "trials M Q N s0 x" "\<not> to_uint (iterations x) < k_n_star x"
  then show "?R x" by blast
qed

lemma prosac_loop_pool:
  assumes "prosac_loop M Q (length idx) s0 = Inr sf" and "pool_inv m idx s0"
  shows "m \<le> n_pool sf \<and> n_pool sf \<le> length idx \<and> n_pool s0 \<le> n_pool sf"
proof -
  from prosac_loop_trials [OF assms(1)] obtain s where tr: "trials M Q (length idx) s0 s"
    and fin: "sf = s \<or> trial M Q (length idx) s = Inr (Break sf)"
    by blast
  have inv: "pool_inv m idx s" and mono: "n_pool s0 \<le> n_pool s"
    using trials_pool_inv [OF tr assms(2)] by simp_all
  from fin show ?thesis
  proof
    assume "sf = s"
    with inv mono show ?thesis by (simp add: pool_inv_def)
  next
    assume t: "trial M Q (length idx) s = Inr (Break sf)"
    from trial_pool_inv(1,3) [OF t inv] inv mono show ?thesis
      by (simp add: pool_inv_def)
  qed
qed


lemma grow_pool_stops:
  assumes "real_of_int (iterations s) = T_prime_n s" and "n_pool s < n_star s"
    and "N \<le> n_pool s + 1"
  shows "trial M Q N s = Inr (Break (s\<lparr>n_pool := n_pool s + 1\<rparr>))"
  using assms by (simp add: trial_def grow_pool_def)


lemma trial_best:
  assumes "trial M Q N s = Inr r"
  shows "(I_N_best (flow_state r) = I_N_best s \<and> model (flow_state r) = model s \<and>
          model_coefficients (flow_state r) = model_coefficients s \<and>
          inliers (flow_state r) = inliers s) \<or>
         (I_N_best s < I_N_best (flow_state r) \<and>
          I_N_best (flow_state r) = to_uint (int (length (inliers (flow_state r)))) \<and>
          model (flow_state r) \<noteq> [])"
  using assms
proof (cases rule: trial_cases)
  case (grow_break s1)
  then show ?thesis using grow_pool_frame [OF grow_break(1)] by simp
next
  case (empty s1 s2)
  then show ?thesis
    using grow_pool_frame [OF empty(1)] draw_samples_frame [OF empty(2)] by simp
next
  case (failed s1 sel s2 ms s3)
  then show ?thesis
    using grow_pool_frame [OF failed(1)] draw_samples_frame [OF failed(2)]
      incr_iterations_Inr [OF failed(5)]
    by simp
next
  case (counted s1 sel s2 co ms inl ms' s5 s6)
  have s2: "I_N_best s2 = I_N_best s" "model s2 = model s"
    "model_coefficients s2 = model_coefficients s" "inliers s2 = inliers s"
    using grow_pool_frame [OF counted(1)] draw_samples_frame [OF counted(2)] by simp_all
  have s6: "s6 = s5\<lparr>iterations := iterations s5 + 1\<rparr>"
    using incr_iterations_Inr [OF counted(7)] by simp
  have r: "flow_state r = s6" using counted(8) by simp
  show ?thesis
  proof (cases "I_N_best s2 < to_uint (int (length inl))")
    case True
    with counted(6) have rb: "record_best M Q N sel co inl (s2\<lparr>sac_state := ms'\<rparr>) = Inr s5"
      by simp
    show ?thesis
      using record_best_frame(11-13) [OF rb] True s2 s6 r counted(3) by simp
  next
    case False
    with counted(6) have "s5 = s2\<lparr>sac_state := ms'\<rparr>" by simp
    then show ?thesis using s2 s6 r by simp
  qed
qed

lemma trials_best:
  assumes "trials M Q N s0 s"
  shows "I_N_best s0 \<le> I_N_best s"
  using assms
proof (induction rule: trials.induct)
  case start
  show ?case by simp
next
  case (pass s s')
  from trial_best [OF pass.hyps(3)] have "I_N_best s \<le> I_N_best s'" by auto
  with pass.IH show ?case by simp
qed

lemma prosac_loop_best:
  assumes "prosac_loop M Q N s = Inr sf"
  shows "I_N_best s \<le> I_N_best sf"
proof -
  have "I_N_best s \<le> I_N_best sf"
  proof (rule prosac_loop_rule [OF assms, where I = "\<lambda>x. I_N_best s \<le> I_N_best x"
        and R = "\<lambda>x. I_N_best s \<le> I_N_best x"])
    show "I_N_best s \<le> I_N_best s" by simp
  next
    fix x x' assume "I_N_best s \<le> I_N_best x" "trial M Q N x = Inr (Next x')"
    then show "I_N_best s \<le> I_N_best x'" using trial_best [of M Q N x "Next x'"] by auto
  next
    fix x x' assume "I_N_best s \<le> I_N_best x" "trial M Q N x = Inr (Break x')"
    then show "I_N_best s \<le> I_N_best x'" using trial_best [of M Q N x "Break x'"] by auto
  next
    fix x assume "I_N_best s \<le> I_N_best x" then show "I_N_best s \<le> I_N_best x" .
  qed
  then show ?thesis .
qed


lemma on_full_indices_simps [simp]:
  "getSampleSize (on_full_indices idx M) = getSampleSize M"
  "getSamples (on_full_indices idx M) = getSamples M"
  "computeModelCoefficients (on_full_indices idx M) sel ix = computeModelCoefficients M sel idx"
  "selectWithinDistance (on_full_indices idx M) co t ix = selectWithinDistance M co t idx"
  by (simp_all add: on_full_indices_def)

lemma grow_pool_on_full [simp]: "grow_pool (on_full_indices idx M) N s = grow_pool M N s"
  by (simp add: grow_pool_def Let_def cong: sum.case_cong)

lemma draw_samples_on_full [simp]: "draw_samples (on_full_indices idx M) s = draw_samples M s"
  by (simp add: draw_samples_def)

lemma record_best_on_full [simp]:
  "record_best (on_full_indices idx M) Q N sel co inl s = record_best M Q N sel co inl s"
  by (simp add: record_best_def)

lemma prosac_init_on_full [simp]:
  "prosac_init (on_full_indices idx M) e ix ms = prosac_init M e ix ms"
  by (simp add: prosac_init_def)

lemma trial_on_full:
  assumes "indices s = idx"
  shows "trial (on_full_indices idx M) Q N s = trial M Q N s"
proof (cases "grow_pool M N s")
  case (Inl f)
  then show ?thesis by (simp add: trial_def)
next
  case (Inr g)
  show ?thesis
  proof (cases g)
    case (Break s1)
    with Inr show ?thesis by (simp add: trial_def)
  next
    case (Next s1)
    note g = Inr [unfolded Next]
    have i1: "indices s1 = idx" using grow_pool_frame(2) [OF g] assms by simp
    show ?thesis
    proof (cases "draw_samples M s1")
      case (Inl f)
      with g show ?thesis by (simp add: trial_def)
    next
      case (Inr d)
      obtain sel s2 where d: "d = (sel, s2)" by (cases d)
      have i2: "indices s2 = idx" using draw_samples_frame(2) [OF Inr [unfolded d]] i1 by simp
      show ?thesis using g Inr d i2
        by (simp add: trial_def Let_def split: prod.splits option.splits)
    qed
  qed
qed

lemma trial_indices:
  assumes "trial M Q N s = Inr r"
  shows "indices (flow_state r) = indices s"
  using trial_pool [OF assms] by blast

lemma prosac_loop_on_full:
  assumes "indices s = idx"
  shows "prosac_loop (on_full_indices idx M) Q N s = prosac_loop M Q N s"
  using assms
proof (induction M Q N s rule: prosac_loop.induct)
  case (1 M Q N s)
  have t: "trial (on_full_indices idx M) Q N s = trial M Q N s"
    using "1.prems" by (rule trial_on_full)
  show ?case
  proof (cases "to_uint (iterations s) < k_n_star s")
    case False
    then show ?thesis by (simp add: prosac_loop.simps)
  next
    case True
    show ?thesis
    proof (cases "trial M Q N s")
      case (Inl f)
      with True t show ?thesis by (simp add: prosac_loop.simps)
    next
      case (Inr r)
      show ?thesis
      proof (cases r)
        case (Break s')
        with Inr True t show ?thesis by (simp add: prosac_loop.simps)
      next
        case (Next s')
        have "indices s' = idx" using trial_indices [OF Inr] Next "1.prems" by simp
        then have "prosac_loop (on_full_indices idx M) Q N s' = prosac_loop M Q N s'"
          using "1.IH" [OF True Inr Next] by simp
        with Inr Next True t show ?thesis
          by (simp add: prosac_loop.simps [of _ _ _ s])
      qed
    qed
  qed
qed

lemma prosac_loop_indices:
  assumes "prosac_loop M Q N s = Inr sf"
  shows "indices sf = indices s"
proof (rule prosac_loop_rule [OF assms, where I = "\<lambda>x. indices x = indices s"
      and R = "\<lambda>x. indices x = indices s"])
  show "indices s = indices s" by simp
next
  fix x x' assume "indices x = indices s" "trial M Q N x = Inr (Next x')"
  then show "indices x' = indices s" using trial_indices [of M Q N x "Next x'"] by simp
next
  fix x x' assume "indices x = indices s" "trial M Q N x = Inr (Break x')"
  then show "indices x' = indices s" using trial_indices [of M Q N x "Break x'"] by simp
next
  fix x assume "indices x = indices s" then show "indices x = indices s" .
qed

lemma prosac_init_indices:
  assumes "prosac_init M e idx ms = Inr s0"
  shows "indices s0 = idx"
  using assms
  by (auto simp: prosac_init_def Let_def SampleConsensus.extend_def prosac.fields_def
      split: if_splits)

lemma computeModel_indices:
  assumes "computeModel M Q e idx ms = Inr (ok, e', idx', ms')"
  shows "idx' = idx"
proof (cases "threshold e = DBL_MAX")
  case True
  with assms show ?thesis by (simp add: computeModel_def)
next
  case False
  with assms obtain s0 sf where i: "prosac_init M e idx ms = Inr s0"
    and l: "prosac_loop M Q (to_uint (int (length idx))) s0 = Inr sf"
    and r: "idx' = indices sf"
    by (auto simp: computeModel_def split: sum.splits if_splits)
  show ?thesis using prosac_loop_indices [OF l] prosac_init_indices [OF i] r by simp
qed


section \<open>Concrete models and engines for the examples\<close>

text \<open>
  A model whose three operations count their calls in the object's state (draws,
  estimates, inlier selections). Its draw is a function of the trial index and of the
  index vector it sees, its estimate succeeds where \<open>good\<close> says so (a function of the
  number of earlier estimates and of the sample; the coefficients are the sample itself),
  and its inliers are a function of the index vector it sees.
\<close>

definition counting_model ::
  "nat \<Rightarrow> (int \<Rightarrow> int list \<Rightarrow> int list) \<Rightarrow> (nat \<Rightarrow> int list \<Rightarrow> bool) \<Rightarrow> (int list \<Rightarrow> int list)
     \<Rightarrow> (int list, nat \<times> nat \<times> nat) SampleConsensusModel" where
  "counting_model m draw good select =
     \<lparr>getSampleSize = m,
      getSamples = (\<lambda>it ix (a, b, c). (draw it ix, (a + 1, b, c))),
      computeModelCoefficients =
        (\<lambda>sel ix (a, b, c). (if good b sel then Some sel else None, (a, b + 1, c))),
      selectWithinDistance = (\<lambda>co t ix (a, b, c). (select ix, (a, b, c + 1)))\<rparr>"

definition fresh_engine :: "real \<Rightarrow> int \<Rightarrow> int list SampleConsensus" where
  "fresh_engine t k =
     \<lparr>threshold = t, max_iterations = k, iterations = 0, inliers = [], model = [],
      model_coefficients = []\<rparr>"

definition no_quantile :: "nat \<Rightarrow> real" where
  "no_quantile p = 0"

text \<open>
  Rounding to the nearest number with a significand of \<open>p\<close> bits, ties to the even
  significand (the exponent range is not bounded: no overflow, no subnormal numbers).
  With \<open>p = 24\<close> this is the rounding of \<^verbatim>\<open>float\<close>.
\<close>

definition round_even :: "real \<Rightarrow> int" where
  "round_even q =
     (let f = \<lfloor>q\<rfloor> in
      if q - of_int f < 1 / 2 then f
      else if 1 / 2 < q - of_int f then f + 1
      else if even f then f else f + 1)"

definition round_to :: "nat \<Rightarrow> real \<Rightarrow> real" where
  "round_to p x =
     (if x = 0 then 0
      else (let u = 2 powr (of_int \<lfloor>log 2 \<bar>x\<bar>\<rfloor> - real p + 1)
            in of_int (round_even (x / u)) * u))"

text \<open>
  The numerics of the examples: \<^verbatim>\<open>float\<close> operations and \<^verbatim>\<open>std::pow\<close> rounded to 24
  bits, the quotient of the two logarithms (a \<^verbatim>\<open>double\<close>) exact, and a quantile that is
  always 0.
\<close>

definition single_numerics :: numerics where
  "single_numerics =
     \<lparr>binomial_quantile = no_quantile,
      to_float = round_to 24,
      to_double = (\<lambda>x. x),
      pow_float = (\<lambda>x y. if y = 0 then 1 else round_to 24 (x powr y)),
      log_double = ln\<rparr>"

lemma round_to_binade:
  assumes "x \<noteq> 0" and "2 powr of_int e \<le> \<bar>x\<bar>" and "\<bar>x\<bar> < 2 powr (of_int e + 1)"
  shows "round_to p x
           = of_int (round_even (x / 2 powr (of_int e - real p + 1)))
               * 2 powr (of_int e - real p + 1)"
proof -
  have "\<lfloor>log 2 \<bar>x\<bar>\<rfloor> = e"
    using assms by (simp add: floor_log_eq_powr_iff)
  with assms(1) show ?thesis by (simp add: round_to_def Let_def)
qed

lemma round_to_24_values:
  "round_to 24 0 = 0"
  "round_to 24 1 = 1"
  "round_to 24 3 = 3"
  "round_to 24 7 = 7"
  "round_to 24 8 = 8"
  "round_to 24 (1 / 4) = 1 / 4"
  "round_to 24 (3 / 4) = 3 / 4"
  "round_to 24 (1 / 16) = 1 / 16"
  "round_to 24 (1 / 10) = 13421773 / 134217728"
  "round_to 24 (1 / 1000) = 8589935 / 8589934592"
  using round_to_binade [of 1 0 24] round_to_binade [of 3 1 24] round_to_binade [of 7 2 24]
    round_to_binade [of 8 3 24]
    round_to_binade [of "1 / 4" "- 2" 24] round_to_binade [of "3 / 4" "- 1" 24]
    round_to_binade [of "1 / 16" "- 4" 24] round_to_binade [of "1 / 10" "- 4" 24]
    round_to_binade [of "1 / 1000" "- 10" 24]
  by (simp_all add: round_to_def round_even_def Let_def powr_neg_numeral)

lemma round_to_24_powers:
  "round_to 24 ((1 / 16) ^ 7) = (1 / 16) ^ 7"
  "round_to 24 ((13421773 / 134217728) ^ 8) = 1407375 / 140737488355328"
  "round_to 24 ((8589935 / 8589934592) ^ 3) = 9007201 / 9007199254740992"
  using round_to_binade [of "(1 / 16) ^ 7" "- 28" 24]
    round_to_binade [of "(13421773 / 134217728) ^ 8" "- 27" 24]
    round_to_binade [of "(8589935 / 8589934592) ^ 3" "- 30" 24]
  by (simp_all add: round_even_def Let_def powr_neg_numeral power_divide)

lemma round_to_24_below_one:
  "round_to 24 (1 - (1 / 16) ^ 7) = 1"
  "round_to 24 (1 - 1407375 / 140737488355328) = 1"
  "round_to 24 (1 - 9007201 / 9007199254740992) = 1"
  using round_to_binade [of "1 - (1 / 16) ^ 7" "- 1" 24]
    round_to_binade [of "1 - 1407375 / 140737488355328" "- 1" 24]
    round_to_binade [of "1 - 9007201 / 9007199254740992" "- 1" 24]
  by (simp_all add: round_even_def Let_def powr_neg_numeral power_divide)

lemma bottom_log_single:
  "bottom_log single_numerics 1 (Suc 0) = 0"
  "bottom_log single_numerics (1 / 4) (Suc 0) = 3 / 4"
  "bottom_log single_numerics (1 / 16) 7 = 1"
  "bottom_log single_numerics (1 / 10) 8 = 1"
  "bottom_log single_numerics (1 / 1000) 3 = 1"
proof -
  show "bottom_log single_numerics 1 (Suc 0) = 0"
    by (simp add: bottom_log_def single_numerics_def round_to_24_values)
  show "bottom_log single_numerics (1 / 4) (Suc 0) = 3 / 4"
    by (simp add: bottom_log_def single_numerics_def round_to_24_values)
  have "bottom_log single_numerics (1 / 16) 7 = round_to 24 (1 - round_to 24 ((1 / 16) ^ 7))"
    by (simp add: bottom_log_def single_numerics_def round_to_24_values)
  also have "\<dots> = 1"
    by (simp only: round_to_24_powers round_to_24_below_one)
  finally show "bottom_log single_numerics (1 / 16) 7 = 1" .
  have "bottom_log single_numerics (1 / 10) 8
          = round_to 24 (1 - round_to 24 ((13421773 / 134217728) ^ 8))"
    by (simp add: bottom_log_def single_numerics_def round_to_24_values)
  also have "\<dots> = 1"
    by (simp only: round_to_24_powers round_to_24_below_one)
  finally show "bottom_log single_numerics (1 / 10) 8 = 1" .
  have "bottom_log single_numerics (1 / 1000) 3
          = round_to 24 (1 - round_to 24 ((8589935 / 8589934592) ^ 3))"
    by (simp add: bottom_log_def single_numerics_def round_to_24_values)
  also have "\<dots> = 1"
    by (simp only: round_to_24_powers round_to_24_below_one)
  finally show "bottom_log single_numerics (1 / 1000) 3 = 1" .
qed

lemma ceiling_log_quotient_single: "\<lceil>log_quotient single_numerics (3 / 4)\<rceil> = 11"
proof -
  have b: "ln (3 / 4 :: real) < 0" by simp
  have lo: "ln (0.05 :: real) < 10 * ln (3 / 4)"
  proof -
    have "(0.05 :: real) < (3 / 4) ^ 10" by (simp add: power_divide)
    then have "ln (0.05 :: real) < ln ((3 / 4) ^ 10)" by (subst ln_less_cancel_iff) simp_all
    then show ?thesis by (simp add: ln_realpow)
  qed
  have hi: "11 * ln (3 / 4) \<le> ln (0.05 :: real)"
  proof -
    have "((3 / 4) ^ 11 :: real) \<le> 0.05" by (simp add: power_divide)
    then have "ln ((3 / 4) ^ 11 :: real) \<le> ln 0.05" by (subst ln_le_cancel_iff) simp_all
    then show ?thesis by (simp add: ln_realpow)
  qed
  have "10 < ln (0.05 :: real) / ln (3 / 4)"
    using lo b by (simp add: neg_less_divide_eq)
  moreover have "ln (0.05 :: real) / ln (3 / 4) \<le> 11"
    using hi b by (simp add: neg_divide_le_eq)
  ultimately have "\<lceil>ln (0.05 :: real) / ln (3 / 4)\<rceil> = 11"
    by (simp add: ceiling_eq_iff)
  then show ?thesis by (simp add: log_quotient_def single_numerics_def)
qed

lemma single_numerics_simps:
  "binomial_quantile single_numerics = no_quantile"
  "log_double single_numerics = ln"
  by (simp_all add: single_numerics_def)

lemmas run_defs =
  computeModel_def prosac_init_def initial_T_n_def SampleConsensus.extend_def
  prosac.fields_def prosac_loop.simps trial_def grow_pool_def draw_samples_def
  swap_indices_def record_best_def new_k_n_star_def incr_iterations_def counting_model_def
  fresh_engine_def no_quantile_def DBL_MAX_def INT_MAX_def T_N_def vec_at_def Let_def
  SampleConsensus.truncate_def bottom_log_single ceiling_log_quotient_single
  single_numerics_simps

text \<open>
  Two runs of a model of sample size 1 that draws the first index it sees, always gets
  coefficients, and finds every index an inlier. Run a: one index, \<^verbatim>\<open>max_iterations_\<close> 0;
  run b: two indices, \<^verbatim>\<open>max_iterations_\<close> 50. Every \<^verbatim>\<open>float\<close> of these runs is a number
  that \<^verbatim>\<open>float\<close> holds exactly.
\<close>

definition first_index_model :: "(int list, nat \<times> nat \<times> nat) SampleConsensusModel" where
  "first_index_model = counting_model 1 (\<lambda>it ix. take 1 ix) (\<lambda>b sel. True) (\<lambda>ix. ix)"

definition run_a_start :: "(int list, nat \<times> nat \<times> nat) prosac" where
  "run_a_start =
     \<lparr>threshold = 1, max_iterations = 0, iterations = 0, inliers = [], model = [],
      model_coefficients = [], indices = [0], sac_state = (0, 0, 0), index_pool = [0],
      T_n = 200000, T_prime_n = 1, I_N_best = 0, n_pool = 1, n_star = 1, epsilon_n_star = 0,
      k_n_star = 200000\<rparr>"

definition run_a_end :: "(int list, nat \<times> nat \<times> nat) prosac" where
  "run_a_end =
     \<lparr>threshold = 1, max_iterations = 0, iterations = 1, inliers = [0], model = [0],
      model_coefficients = [0], indices = [0], sac_state = (1, 1, 1), index_pool = [0],
      T_n = 200000, T_prime_n = 1, I_N_best = 1, n_pool = 1, n_star = 1, epsilon_n_star = 1,
      k_n_star = 2\<rparr>"

definition run_b_start :: "(int list, nat \<times> nat \<times> nat) prosac" where
  "run_b_start =
     \<lparr>threshold = 1, max_iterations = 50, iterations = 0, inliers = [], model = [],
      model_coefficients = [], indices = [0, 1], sac_state = (0, 0, 0), index_pool = [0],
      T_n = 100000, T_prime_n = 1, I_N_best = 0, n_pool = 1, n_star = 2, epsilon_n_star = 0,
      k_n_star = 200000\<rparr>"

definition run_b_second :: "(int list, nat \<times> nat \<times> nat) prosac" where
  "run_b_second =
     \<lparr>threshold = 1, max_iterations = 50, iterations = 1, inliers = [0, 1], model = [0],
      model_coefficients = [0], indices = [0, 1], sac_state = (1, 1, 1), index_pool = [0],
      T_n = 100000, T_prime_n = 1, I_N_best = 2, n_pool = 1, n_star = 2, epsilon_n_star = 1,
      k_n_star = 2\<rparr>"

text \<open>
  The same model, except that its draw at trial 0 is empty; and the same model, except
  that its first three coefficient estimates fail.
\<close>

definition late_draw_model :: "(int list, nat \<times> nat \<times> nat) SampleConsensusModel" where
  "late_draw_model =
     counting_model 1 (\<lambda>it ix. if it = 0 then [] else take 1 ix) (\<lambda>b sel. True) (\<lambda>ix. ix)"


definition slow_start_model :: "(int list, nat \<times> nat \<times> nat) SampleConsensusModel" where
  "slow_start_model =
     counting_model 1 (\<lambda>it ix. take 1 ix) (\<lambda>b sel. 3 \<le> b) (\<lambda>ix. ix)"


lemmas run_states = first_index_model_def run_a_start_def run_a_end_def run_b_start_def
  run_b_second_def

lemma run_a_init:
  "prosac_init first_index_model (fresh_engine 1 0) [0] (0, 0, 0) = Inr run_a_start"
  by (simp add: run_defs run_states)

lemma run_a_trial: "trial first_index_model single_numerics 1 run_a_start = Inr (Break run_a_end)"
  by (simp add: run_defs run_states)

lemma run_a_loop: "prosac_loop first_index_model single_numerics 1 run_a_start = Inr run_a_end"
proof -
  have c: "to_uint (iterations run_a_start) < k_n_star run_a_start"
    by (simp add: run_states)
  show ?thesis
    by (subst prosac_loop.simps) (simp only: c run_a_trial if_True sum.case flow.case)
qed

lemma run_b_init:
  "prosac_init first_index_model (fresh_engine 1 50) [0, 1] (0, 0, 0) = Inr run_b_start"
  by (simp add: run_defs run_states)

lemma run_b_trial: "trial first_index_model single_numerics 2 run_b_start = Inr (Next run_b_second)"
  by (simp add: run_defs run_states)

lemma run_b_trials: "trials first_index_model single_numerics 2 run_b_start run_b_second"
proof (rule trials.pass [OF trials.start _ run_b_trial])
  show "to_uint (iterations run_b_start) < k_n_star run_b_start"
    by (simp add: run_states)
qed


section \<open>The threshold check\<close>

text \<open>
  C3: when the distance threshold was not set, which the source recognises by the value
  \<open>DBL_MAX\<close> ("Warn and exit if no threshold was set"), \<open>computeModel\<close> returns false before
  any sampling, coefficient estimation or inlier selection: the result does not depend on
  the model's operations, the model object (index vector and state) is as it was, and no
  member of the engine is written, not even the iteration counter.
\<close>

theorem computeModel_unset_threshold:
  assumes "threshold e = DBL_MAX"
  shows "computeModel M Q e idx ms = Inr (False, e, idx, ms)"
proof -
  have "computeModel M Q e idx ms
          = (if threshold e = DBL_MAX then Inr (False, e, idx, ms)
             else (case prosac_init M e idx ms of
                     Inl f \<Rightarrow> Inl f
                   | Inr s0 \<Rightarrow>
                       (case prosac_loop M Q (to_uint (int (length idx))) s0 of
                          Inl f \<Rightarrow> Inl f
                        | Inr s \<Rightarrow>
                            if model s = []
                            then Inr (False, SampleConsensus.truncate (s\<lparr>inliers := []\<rparr>),
                                      indices s, sac_state s)
                            else Inr (True, SampleConsensus.truncate s, indices s,
                                      sac_state s))))"
    by (rule computeModel_def)
  with assms show ?thesis by simp
qed

theorem computeModel_unset_threshold_witness:
  "threshold (fresh_engine DBL_MAX 50) = DBL_MAX \<and>
   computeModel first_index_model single_numerics
     (fresh_engine DBL_MAX 50) [0, 1, 2] (0, 0, 0)
     = Inr (False, fresh_engine DBL_MAX 50, [0, 1, 2], (0, 0, 0))"
  using computeModel_unset_threshold [of "fresh_engine DBL_MAX 50"
      first_index_model single_numerics
      "[0, 1, 2]" "(0, 0, 0)"]
  by (simp add: fresh_engine_def)

text \<open>
  C10: the only test of the threshold is the comparison with \<open>DBL_MAX\<close>. Take an engine
  \<open>e0\<close> whose threshold was never set (it holds \<open>DBL_MAX\<close>) and store in it the threshold
  of a segmentation object on which the caller called \<open>setDistanceThreshold DBL_MAX\<close>:
  the engine is the same engine as before, and \<open>computeModel\<close> fails on it exactly as in
  the unset case, without touching anything.
\<close>

theorem computeModel_explicit_DBL_MAX:
  assumes "threshold e0 = DBL_MAX"
  shows "e0\<lparr>threshold := getDistanceThreshold (setDistanceThreshold DBL_MAX S)\<rparr> = e0 \<and>
         computeModel M Q (e0\<lparr>threshold := getDistanceThreshold (setDistanceThreshold DBL_MAX S)\<rparr>)
           idx ms = Inr (False, e0, idx, ms)"
proof -
  have t: "getDistanceThreshold (setDistanceThreshold DBL_MAX S) = DBL_MAX"
    by (simp add: getDistanceThreshold_def setDistanceThreshold_def)
  have same: "e0\<lparr>threshold := DBL_MAX\<rparr> = e0"
    using assms by simp
  have "computeModel M Q e0 idx ms = Inr (False, e0, idx, ms)"
    using assms by (simp add: computeModel_def)
  with t same show ?thesis by simp
qed

theorem computeModel_explicit_DBL_MAX_witness:
  "threshold (fresh_engine DBL_MAX 50) = DBL_MAX \<and>
   computeModel first_index_model single_numerics
     ((fresh_engine DBL_MAX 50)\<lparr>threshold := getDistanceThreshold
        (setDistanceThreshold DBL_MAX
           \<lparr>seg_model_type = - 1, seg_method_type = 0, seg_threshold = 1 / 100,
            seg_optimize_coefficients = True, seg_radius_min = - DBL_MAX,
            seg_radius_max = DBL_MAX, seg_eps_angle = 0, seg_max_iterations = 50,
            seg_probability = 99 / 100\<rparr>)\<rparr>)
     [0, 1, 2] (0, 0, 0)
     = Inr (False, fresh_engine DBL_MAX 50, [0, 1, 2], (0, 0, 0))"
  using computeModel_explicit_DBL_MAX [of "fresh_engine DBL_MAX 50"
      "\<lparr>seg_model_type = - 1, seg_method_type = 0, seg_threshold = 1 / 100,
        seg_optimize_coefficients = True, seg_radius_min = - DBL_MAX,
        seg_radius_max = DBL_MAX, seg_eps_angle = 0, seg_max_iterations = 50,
        seg_probability = 99 / 100\<rparr>"
      first_index_model single_numerics
      "[0, 1, 2]" "(0, 0, 0)"]
  by (simp add: fresh_engine_def getDistanceThreshold_def setDistanceThreshold_def)

section \<open>The scan for a better pool size\<close>

lemma n_star_scan_fst_inv:
  "fst best = p \<or> m < fst best \<Longrightarrow>
     fst (n_star_scan Q m eps xs I best) = p \<or> m < fst (n_star_scan Q m eps xs I best)"
proof (induction Q m eps xs I best rule: n_star_scan.induct)
  case (1 Q m eps_star I_possible_n_star best)
  then show ?case by simp
next
  case (2 Q m eps_star last_inlier rest I_possible_n_star best)
  show ?case
  proof (cases "to_uint (last_inlier + 1) \<le> m")
    case True
    then show ?thesis using "2.prems" by simp
  next
    case False
    then show ?thesis
      using "2.IH" "2.prems" by (simp add: Let_def)
  qed
qed

lemma n_star_scan_takeWhile:
  "n_star_scan Q m eps xs I best
     = n_star_scan Q m eps (takeWhile (\<lambda>x. m < to_uint (x + 1)) xs) I best"
  by (induction Q m eps xs I best rule: n_star_scan.induct) (simp_all add: Let_def)

text \<open>
  C7: the backward scan ends at the first candidate pool size that is at or below the
  sample size \<open>m\<close> (a candidate below \<open>m\<close> in particular): the inliers from that one on
  are not visited, so the scan gives what it gives on the inliers before it; and the pool
  size the scan settles on is the one it started with or a candidate above \<open>m\<close>, never a
  pool smaller than \<open>m\<close>.
\<close>

theorem n_star_scan_stops_at_sample_size:
  "n_star_scan Q m eps xs I best
     = n_star_scan Q m eps (takeWhile (\<lambda>x. m < to_uint (x + 1)) xs) I best \<and>
   (fst (n_star_scan Q m eps xs I best) = fst best \<or>
    m < fst (n_star_scan Q m eps xs I best))"
proof
  show "n_star_scan Q m eps xs I best
          = n_star_scan Q m eps (takeWhile (\<lambda>x. m < to_uint (x + 1)) xs) I best"
    by (rule n_star_scan_takeWhile)
next
  have "fst best = fst best \<or> m < fst best" by simp
  then show "fst (n_star_scan Q m eps xs I best) = fst best \<or>
             m < fst (n_star_scan Q m eps xs I best)"
    by (rule n_star_scan_fst_inv)
qed

theorem n_star_scan_stops_at_sample_size_witness:
  "n_star_scan no_quantile 3 0 [9, 7, 5, 2] 4 (100, 4, 4 / 100)
     = n_star_scan no_quantile 3 0 (takeWhile (\<lambda>x. 3 < to_uint (x + 1)) [9, 7, 5, 2]) 4
         (100, 4, 4 / 100) \<and>
   takeWhile (\<lambda>x. 3 < to_uint (x + 1)) [9, 7, 5, 2 :: int] = [9, 7, 5] \<and>
   n_star_scan no_quantile 3 0 [9, 7, 5, 2] 4 (100, 4, 4 / 100) = (10, 4, 4 / 10)"
proof -
  have e: "n_star_scan no_quantile 3 0 [9, 7, 5, 2] 4 (100, 4, 4 / 100) = (10, 4, 4 / 10)"
    by (simp add: no_quantile_def)
  have t: "takeWhile (\<lambda>x. 3 < to_uint (x + 1)) [9, 7, 5, 2 :: int] = [9, 7, 5]"
    by simp
  from n_star_scan_stops_at_sample_size [of no_quantile 3 0 "[9, 7, 5, 2]" 4 "(100, 4, 4 / 100)"]
    e t show ?thesis by simp
qed

section \<open>The candidate pool\<close>

text \<open>
  C5: in a run on an index vector that fits \<^verbatim>\<open>unsigned int\<close>, at the head of the loop the
  pool size \<open>n\<close> lies between the sample size \<open>m\<close> and \<open>N\<close> and is not below its initial
  value; a pass through the loop body, however it ends, leaves \<open>n\<close> as it is or adds one,
  and keeps it between \<open>m\<close> and \<open>N\<close>; and when the growth step fires with \<open>n + 1\<close> at
  or above \<open>N\<close>, the pass leaves the loop at once and the pool vector does not grow. The
  state the loop ends in has \<open>n\<close> between \<open>m\<close> and \<open>N\<close> too, not below its initial value.
\<close>

theorem pool_size_bounds:
  assumes "length idx < 2 ^ 32"
    and "prosac_init M e idx ms = Inr s0"
    and "trials M Q (to_uint (int (length idx))) s0 s"
  shows "getSampleSize M \<le> n_pool s \<and> n_pool s \<le> to_uint (int (length idx)) \<and>
         n_pool s0 \<le> n_pool s \<and>
         (\<forall>r. trial M Q (to_uint (int (length idx))) s = Inr r \<longrightarrow>
            n_pool s \<le> n_pool (flow_state r) \<and> n_pool (flow_state r) \<le> n_pool s + 1 \<and>
            getSampleSize M \<le> n_pool (flow_state r) \<and>
            n_pool (flow_state r) \<le> to_uint (int (length idx))) \<and>
         (real_of_int (iterations s) = T_prime_n s \<and> n_pool s < n_star s \<and>
          to_uint (int (length idx)) \<le> n_pool s + 1 \<longrightarrow>
            trial M Q (to_uint (int (length idx))) s = Inr (Break (s\<lparr>n_pool := n_pool s + 1\<rparr>))) \<and>
         (\<forall>sf. prosac_loop M Q (to_uint (int (length idx))) s0 = Inr sf \<longrightarrow>
            getSampleSize M \<le> n_pool sf \<and> n_pool sf \<le> to_uint (int (length idx)) \<and>
            n_pool s0 \<le> n_pool sf)"
proof -
  have N: "to_uint (int (length idx)) = length idx"
    using assms(1) by simp
  have inv0: "pool_inv (getSampleSize M) idx s0"
    using prosac_init_inv [OF assms(2) assms(1)] .
  have tr: "trials M Q (length idx) s0 s"
    using assms(3) N by simp
  have inv: "pool_inv (getSampleSize M) idx s" and mono: "n_pool s0 \<le> n_pool s"
    using trials_pool_inv [OF tr inv0] by simp_all
  have step: "n_pool s \<le> n_pool (flow_state r) \<and> n_pool (flow_state r) \<le> n_pool s + 1 \<and>
      getSampleSize M \<le> n_pool (flow_state r) \<and> n_pool (flow_state r) \<le> length idx"
    if "trial M Q (length idx) s = Inr r" for r
    using trial_pool_inv(1-3) [OF that inv] inv by (simp add: pool_inv_def)
  have stop: "trial M Q (length idx) s = Inr (Break (s\<lparr>n_pool := n_pool s + 1\<rparr>))"
    if "real_of_int (iterations s) = T_prime_n s" "n_pool s < n_star s"
      "length idx \<le> n_pool s + 1"
    using that by (rule grow_pool_stops)
  have fin: "getSampleSize M \<le> n_pool sf \<and> n_pool sf \<le> length idx \<and> n_pool s0 \<le> n_pool sf"
    if "prosac_loop M Q (length idx) s0 = Inr sf" for sf
    using prosac_loop_pool [OF that inv0] .
  show ?thesis
    unfolding N using inv mono step stop fin by (simp add: pool_inv_def)
qed

theorem pool_size_bounds_witness:
  "length [0, 1 :: int] < 2 ^ 32 \<and>
   prosac_init first_index_model (fresh_engine 1 50) [0, 1] (0, 0, 0) = Inr run_b_start \<and>
   trials first_index_model single_numerics (to_uint (int (length [0, 1 :: int]))) run_b_start
     run_b_second \<and>
   getSampleSize first_index_model \<le> n_pool run_b_second \<and>
   n_pool run_b_second \<le> to_uint (int (length [0, 1 :: int])) \<and>
   real_of_int (iterations run_b_second) = T_prime_n run_b_second \<and>
   n_pool run_b_second < n_star run_b_second \<and>
   to_uint (int (length [0, 1 :: int])) \<le> n_pool run_b_second + 1 \<and>
   trial first_index_model single_numerics (to_uint (int (length [0, 1 :: int]))) run_b_second
     = Inr (Break (run_b_second\<lparr>n_pool := n_pool run_b_second + 1\<rparr>)) \<and>
   n_pool (flow_state (Break (run_b_second\<lparr>n_pool := n_pool run_b_second + 1\<rparr>)))
     \<le> n_pool run_b_second + 1"
proof -
  have a: "length [0, 1 :: int] < 2 ^ 32" by simp
  have N: "to_uint (int (length [0, 1 :: int])) = 2" by simp
  have c: "trials first_index_model single_numerics (to_uint (int (length [0, 1 :: int])))
             run_b_start run_b_second"
    unfolding N by (rule run_b_trials)
  have g: "real_of_int (iterations run_b_second) = T_prime_n run_b_second \<and>
           n_pool run_b_second < n_star run_b_second \<and>
           to_uint (int (length [0, 1 :: int])) \<le> n_pool run_b_second + 1"
    by (simp add: run_states)
  from pool_size_bounds [OF a run_b_init c] a run_b_init c g show ?thesis
    by simp
qed

section \<open>The best model so far\<close>

text \<open>
  C6: a pass through the loop body, however it ends, does not lower the best inlier
  count, and it leaves the stored selection, coefficients and inliers as they are unless
  the count strictly grows (to the size of the new inlier set); so the count is
  non-decreasing from any state at the head of the loop to any later one, and to the state
  the loop ends in.
\<close>

theorem best_count_monotone:
  "(trial M Q N s = Inr r \<longrightarrow>
      I_N_best s \<le> I_N_best (flow_state r) \<and>
      ((model (flow_state r) = model s \<and>
        model_coefficients (flow_state r) = model_coefficients s \<and>
        inliers (flow_state r) = inliers s) \<or>
       (I_N_best s < I_N_best (flow_state r) \<and>
        I_N_best (flow_state r) = to_uint (int (length (inliers (flow_state r))))))) \<and>
   (trials M Q N s s' \<longrightarrow> I_N_best s \<le> I_N_best s') \<and>
   (prosac_loop M Q N s = Inr sf \<longrightarrow> I_N_best s \<le> I_N_best sf)"
proof (intro conjI impI)
  assume t: "trial M Q N s = Inr r"
  from trial_best [OF t] show "I_N_best s \<le> I_N_best (flow_state r)" by auto
  from trial_best [OF t] show "(model (flow_state r) = model s \<and>
        model_coefficients (flow_state r) = model_coefficients s \<and>
        inliers (flow_state r) = inliers s) \<or>
       (I_N_best s < I_N_best (flow_state r) \<and>
        I_N_best (flow_state r) = to_uint (int (length (inliers (flow_state r)))))" by auto
next
  assume "trials M Q N s s'" then show "I_N_best s \<le> I_N_best s'" by (rule trials_best)
next
  assume "prosac_loop M Q N s = Inr sf" then show "I_N_best s \<le> I_N_best sf"
    by (rule prosac_loop_best)
qed

theorem best_count_monotone_witness:
  "trial first_index_model single_numerics 2 run_b_start = Inr (Next run_b_second) \<and>
   trials first_index_model single_numerics 2 run_b_start run_b_second \<and>
   prosac_loop first_index_model single_numerics 1 run_a_start = Inr run_a_end \<and>
   I_N_best run_b_start \<le> I_N_best (flow_state (Next run_b_second)) \<and>
   I_N_best run_b_start < I_N_best (flow_state (Next run_b_second)) \<and>
   I_N_best run_a_start \<le> I_N_best run_a_end"
proof -
  have lt: "I_N_best run_b_start < I_N_best (flow_state (Next run_b_second))"
    by (simp add: run_states)
  from best_count_monotone [of first_index_model single_numerics 2 run_b_start "Next run_b_second"
      run_b_second]
    best_count_monotone [of first_index_model single_numerics 1 run_a_start _ _ run_a_end]
    run_b_trial run_b_trials run_a_loop lt
  show ?thesis by simp
qed


section \<open>The index vector seen by the model\<close>

text \<open>
  C9: after the draw the two vectors are swapped back, so the coefficient estimate and
  the inlier selection of every trial read the full index vector \<open>idx\<close> of the run:
  fixing the vector they read to \<open>idx\<close> changes nothing in \<open>computeModel\<close>. Every pass
  through the loop body leaves the model's index vector as it found it, and the call
  returns with the vector it was given.
\<close>

theorem inliers_on_full_index_set:
  "computeModel (on_full_indices idx M) Q e idx ms = computeModel M Q e idx ms \<and>
   (\<forall>r. trial M Q N s = Inr r \<longrightarrow> indices (flow_state r) = indices s) \<and>
   (\<forall>ok e' idx' ms'. computeModel M Q e idx ms = Inr (ok, e', idx', ms') \<longrightarrow> idx' = idx)"
proof (intro conjI allI impI)
  show "computeModel (on_full_indices idx M) Q e idx ms = computeModel M Q e idx ms"
  proof (cases "prosac_init M e idx ms")
    case (Inl f)
    then show ?thesis by (simp add: computeModel_def)
  next
    case (Inr s0)
    have "indices s0 = idx" using Inr by (rule prosac_init_indices)
    then have "prosac_loop (on_full_indices idx M) Q (to_uint (int (length idx))) s0
                 = prosac_loop M Q (to_uint (int (length idx))) s0"
      by (rule prosac_loop_on_full)
    with Inr show ?thesis by (simp add: computeModel_def)
  qed
next
  fix r assume "trial M Q N s = Inr r"
  then show "indices (flow_state r) = indices s" by (rule trial_indices)
next
  fix ok e' idx' ms' assume "computeModel M Q e idx ms = Inr (ok, e', idx', ms')"
  then show "idx' = idx" by (rule computeModel_indices)
qed

theorem inliers_on_full_index_set_witness:
  "computeModel (on_full_indices [0, 1] first_index_model) single_numerics (fresh_engine 1 50)
     [0, 1] (0, 0, 0)
     = computeModel first_index_model single_numerics (fresh_engine 1 50) [0, 1] (0, 0, 0) \<and>
   trial first_index_model single_numerics 2 run_b_start = Inr (Next run_b_second) \<and>
   indices (flow_state (Next run_b_second)) = indices run_b_start"
  using inliers_on_full_index_set [of "[0, 1]" first_index_model single_numerics
      "fresh_engine 1 50" "(0, 0, 0)" 2 run_b_start] run_b_trial
  by simp


section \<open>The result of a run\<close>

lemma prosac_loop_best_inv:
  assumes "prosac_loop M Q N s = Inr sf" and "I_N_best s = 0"
  shows "(I_N_best sf = 0 \<and> model sf = model s \<and> inliers sf = inliers s \<and>
          model_coefficients sf = model_coefficients s) \<or>
         (0 < I_N_best sf \<and> model sf \<noteq> [] \<and>
          I_N_best sf = to_uint (int (length (inliers sf))))"
    (is "?P sf")
proof (rule prosac_loop_rule [OF assms(1), where I = ?P and R = ?P])
  show "?P s" using assms(2) by simp
next
  fix x x' assume "?P x" "trial M Q N x = Inr (Next x')"
  then show "?P x'" using trial_best [of M Q N x "Next x'"] by auto
next
  fix x x' assume "?P x" "trial M Q N x = Inr (Break x')"
  then show "?P x'" using trial_best [of M Q N x "Break x'"] by auto
next
  fix x assume "?P x" then show "?P x" .
qed

lemma prosac_init_best:
  assumes "prosac_init M e idx ms = Inr s0"
  shows "I_N_best s0 = 0" and "model s0 = model e" and "inliers s0 = inliers e"
    and "model_coefficients s0 = model_coefficients e"
  using assms
  by (auto simp: prosac_init_def Let_def SampleConsensus.extend_def prosac.fields_def
      split: if_splits)


text \<open>
  C8: when the stored selection is empty as the loop ends, \<open>computeModel\<close> clears the
  stored inliers and returns false, a value and not a fault; otherwise it returns true with
  the stored selection, coefficients and inliers. A run that accepted a best model (the
  best count is positive) ends with a non-empty selection and the inliers of that count, so
  it returns true with them, however the loop ended. A run that accepted none leaves the
  selection and the inliers the engine had before the call; for an engine that enters with
  an empty selection, the run returns false exactly when no trial was accepted.
\<close>

theorem no_model_found:
  assumes "threshold e \<noteq> DBL_MAX"
    and "prosac_init M e idx ms = Inr s0"
    and "prosac_loop M Q (to_uint (int (length idx))) s0 = Inr sf"
  shows "computeModel M Q e idx ms =
           (if model sf = []
            then Inr (False, SampleConsensus.truncate (sf\<lparr>inliers := []\<rparr>), indices sf,
                      sac_state sf)
            else Inr (True, SampleConsensus.truncate sf, indices sf, sac_state sf)) \<and>
         inliers (SampleConsensus.truncate (sf\<lparr>inliers := []\<rparr>)) = [] \<and>
         model (SampleConsensus.truncate sf) = model sf \<and>
         inliers (SampleConsensus.truncate sf) = inliers sf \<and>
         model_coefficients (SampleConsensus.truncate sf) = model_coefficients sf \<and>
         (0 < I_N_best sf \<longrightarrow>
            model sf \<noteq> [] \<and> I_N_best sf = to_uint (int (length (inliers sf)))) \<and>
         (I_N_best sf = 0 \<longrightarrow> model sf = model e \<and> inliers sf = inliers e) \<and>
         (model e = [] \<longrightarrow> (model sf = [] \<longleftrightarrow> I_N_best sf = 0))"
proof -
  have run: "computeModel M Q e idx ms =
           (if model sf = []
            then Inr (False, SampleConsensus.truncate (sf\<lparr>inliers := []\<rparr>), indices sf,
                      sac_state sf)
            else Inr (True, SampleConsensus.truncate sf, indices sf, sac_state sf))"
    using assms by (simp add: computeModel_def)
  have tr: "inliers (SampleConsensus.truncate (sf\<lparr>inliers := []\<rparr>)) = []"
    "model (SampleConsensus.truncate sf) = model sf"
    "inliers (SampleConsensus.truncate sf) = inliers sf"
    "model_coefficients (SampleConsensus.truncate sf) = model_coefficients sf"
    by (simp_all add: SampleConsensus.truncate_def)
  have inv: "(I_N_best sf = 0 \<and> model sf = model s0 \<and> inliers sf = inliers s0 \<and>
          model_coefficients sf = model_coefficients s0) \<or>
         (0 < I_N_best sf \<and> model sf \<noteq> [] \<and>
          I_N_best sf = to_uint (int (length (inliers sf))))"
    using prosac_loop_best_inv [OF assms(3) prosac_init_best(1) [OF assms(2)]] .
  have best: "0 < I_N_best sf \<longrightarrow>
      model sf \<noteq> [] \<and> I_N_best sf = to_uint (int (length (inliers sf)))"
    using inv by auto
  have none: "I_N_best sf = 0 \<longrightarrow> model sf = model e \<and> inliers sf = inliers e"
    using inv prosac_init_best(2,3) [OF assms(2)] by auto
  have fresh: "model e = [] \<longrightarrow> (model sf = [] \<longleftrightarrow> I_N_best sf = 0)"
    using inv prosac_init_best(2) [OF assms(2)] by auto
  from run tr best none fresh show ?thesis by blast
qed

theorem no_model_found_witness:
  "threshold (fresh_engine 1 0) \<noteq> DBL_MAX \<and>
   prosac_init first_index_model (fresh_engine 1 0) [0] (0, 0, 0) = Inr run_a_start \<and>
   prosac_loop first_index_model single_numerics (to_uint (int (length [0 :: int]))) run_a_start
     = Inr run_a_end \<and>
   0 < I_N_best run_a_end \<and> model run_a_end \<noteq> [] \<and>
   computeModel first_index_model single_numerics (fresh_engine 1 0) [0] (0, 0, 0)
     = Inr (True, SampleConsensus.truncate run_a_end, indices run_a_end, sac_state run_a_end)"
proof -
  have t: "threshold (fresh_engine 1 0) \<noteq> DBL_MAX"
    by (simp add: fresh_engine_def DBL_MAX_def)
  have N: "to_uint (int (length [0 :: int])) = 1" by simp
  have l: "prosac_loop first_index_model single_numerics (to_uint (int (length [0 :: int])))
             run_a_start = Inr run_a_end"
    unfolding N by (rule run_a_loop)
  have m: "0 < I_N_best run_a_end \<and> model run_a_end \<noteq> []"
    by (simp add: run_a_end_def)
  from no_model_found [OF t run_a_init l] t run_a_init l m show ?thesis
    by simp
qed

section \<open>The trial budget\<close>




text \<open>
  With roundings that change nothing and the exact power and logarithm, the two
  quantities are \<open>1 - eps ^ m\<close> and \<open>ln 0.05 / ln b\<close>.
\<close>

lemma bottom_log_exact:
  assumes "to_float Q = (\<lambda>x. x)" and "pow_float Q = (\<lambda>x y. x powr y)" and "0 < eps"
  shows "bottom_log Q eps m = 1 - eps ^ m"
  using assms by (simp add: bottom_log_def powr_realpow)

lemma log_quotient_exact:
  assumes "to_double Q = (\<lambda>x. x)" and "log_double Q = ln"
  shows "log_quotient Q b = ln 0.05 / ln b"
  using assms by (simp add: log_quotient_def)






text \<open>
  Three trials that update \<open>k_n_star\<close>, one for each rule. Run a: \<open>epsilon_n_star\<close> becomes
  1, \<open>bottom_log\<close> is 0 and \<open>k_n_star\<close> is \<open>max 1 2\<close>. Run c (four indices, sample size 1,
  one inlier): \<open>epsilon_n_star\<close> becomes \<open>1 / 4\<close>, \<open>bottom_log\<close> is \<open>3 / 4\<close> and \<open>k_n_star\<close> is
  \<open>ceil (log 0.05 / log 0.75) = 11\<close>. Run d (sixteen indices, sample size 7, one inlier):
  \<open>epsilon_n_star\<close> becomes \<open>1 / 16\<close>, whose seventh power \<open>2 ^ - 28\<close> is lost when it is
  subtracted from 1 in \<^verbatim>\<open>float\<close>, so \<open>bottom_log\<close> is 1 and \<open>k_n_star\<close> is \<open>T_N\<close>
  (\<open>T_n\<close> of run d is not a number that \<^verbatim>\<open>float\<close> holds; the trial does not read it).
  The same rule gives \<open>T_N\<close> for \<open>epsilon_n_star = 1 / 10\<close> with \<open>m = 8\<close> and for
  \<open>epsilon_n_star = 1 / 1000\<close> with \<open>m = 3\<close>.
\<close>

definition one_inlier_model :: "nat \<Rightarrow> (int list, nat \<times> nat \<times> nat) SampleConsensusModel" where
  "one_inlier_model m =
     counting_model m (\<lambda>it ix. take m ix) (\<lambda>b sel. True) (\<lambda>ix. take 1 ix)"





lemma getSampleSize_one_inlier [simp]: "getSampleSize (one_inlier_model m) = m"
  by (simp add: one_inlier_model_def counting_model_def)






section \<open>An empty sample\<close>

lemma draw_samples_empty:
  assumes "getSamples M (iterations s) (index_pool s) (sac_state s) = ([], ms)"
    and "\<not> T_prime_n s < real_of_int (iterations s)"
  shows "draw_samples M s = Inr ([], s\<lparr>sac_state := ms\<rparr>)"
  using assms by (simp add: draw_samples_def swap_indices_def Let_def)


text \<open>
  C1, as the code has it: when the draw of a trial comes back empty (and the trial index
  is not beyond \<open>T_prime_n\<close>, so that the newest pool element is not forced into the
  sample), the pass leaves the loop at once, and the loop ends in the state the draw left:
  no later trial runs, the iteration counter is not advanced, the best count and the stored
  selection, coefficients and inliers are untouched, and nothing is thrown.
\<close>

theorem empty_selection_leaves_loop:
  assumes "to_uint (iterations s) < k_n_star s"
    and "grow_pool M N s = Inr (Next s1)"
    and "getSamples M (iterations s1) (index_pool s1) (sac_state s1) = ([], ms)"
    and "\<not> T_prime_n s1 < real_of_int (iterations s1)"
  shows "trial M Q N s = Inr (Break (s1\<lparr>sac_state := ms\<rparr>)) \<and>
         prosac_loop M Q N s = Inr (s1\<lparr>sac_state := ms\<rparr>) \<and>
         iterations (s1\<lparr>sac_state := ms\<rparr>) = iterations s \<and>
         I_N_best (s1\<lparr>sac_state := ms\<rparr>) = I_N_best s \<and>
         model (s1\<lparr>sac_state := ms\<rparr>) = model s \<and>
         model_coefficients (s1\<lparr>sac_state := ms\<rparr>) = model_coefficients s \<and>
         inliers (s1\<lparr>sac_state := ms\<rparr>) = inliers s"
proof -
  have d: "draw_samples M s1 = Inr ([], s1\<lparr>sac_state := ms\<rparr>)"
    using assms(3,4) by (rule draw_samples_empty)
  have t: "trial M Q N s = Inr (Break (s1\<lparr>sac_state := ms\<rparr>))"
    using assms(2) d by (simp add: trial_def)
  have l: "prosac_loop M Q N s = Inr (s1\<lparr>sac_state := ms\<rparr>)"
    by (subst prosac_loop.simps) (simp only: assms(1) t if_True sum.case flow.case)
  have f: "iterations s1 = iterations s" "I_N_best s1 = I_N_best s" "model s1 = model s"
    "model_coefficients s1 = model_coefficients s" "inliers s1 = inliers s"
    using grow_pool_frame [OF assms(2)] by simp_all
  from t l f show ?thesis by simp
qed


theorem empty_selection_leaves_loop_witness:
  "to_uint (iterations run_b_start) < k_n_star run_b_start \<and>
   grow_pool late_draw_model 2 run_b_start = Inr (Next run_b_start) \<and>
   getSamples late_draw_model (iterations run_b_start) (index_pool run_b_start)
     (sac_state run_b_start) = ([], (1, 0, 0)) \<and>
   \<not> T_prime_n run_b_start < real_of_int (iterations run_b_start) \<and>
   prosac_loop late_draw_model single_numerics 2 run_b_start
     = Inr (run_b_start\<lparr>sac_state := (1, 0, 0)\<rparr>)"
proof -
  have c: "to_uint (iterations run_b_start) < k_n_star run_b_start"
    by (simp add: run_states)
  have g: "grow_pool late_draw_model 2 run_b_start = Inr (Next run_b_start)"
    by (simp add: grow_pool_def run_states)
  have d: "getSamples late_draw_model (iterations run_b_start) (index_pool run_b_start)
     (sac_state run_b_start) = ([], (1, 0, 0))"
    by (simp add: late_draw_model_def counting_model_def run_states)
  have n: "\<not> T_prime_n run_b_start < real_of_int (iterations run_b_start)"
    by (simp add: run_states)
  from empty_selection_leaves_loop [OF c g d n, of single_numerics] c g d n show ?thesis
    by simp
qed


text \<open>
  C1 as the specification states it (the engine skips to the next iteration and later
  trials still execute) fails: on a model whose draw is empty at trial 0 and non-empty at
  every later trial, with 50 iterations allowed and a budget of 200000, the run makes one
  draw and returns false.
\<close>

theorem empty_selection_counterexample:
  "computeModel late_draw_model single_numerics (fresh_engine 1 50) [0, 1] (0, 0, 0)
     = Inr (False, fresh_engine 1 50, [0, 1], (1, 0, 0)) \<and>
   getSamples late_draw_model 1 [0] (1, 0, 0) = ([0], (2, 0, 0))"
  by (simp add: run_defs late_draw_model_def)


section \<open>The iteration cap\<close>

text \<open>
  C2: with \<^verbatim>\<open>max_iterations_\<close> set to 0 the loop body still runs. The cap is tested after
  the increment at the end of a trial with \<^verbatim>\<open>iterations_ > max_iterations_\<close>, so one full
  trial (draw, estimate, inlier selection) is executed and its model is returned with
  true; and the \<^verbatim>\<open>continue\<close> after a failed estimate skips the test, so three failed
  estimates followed by a good one make four trials under a cap of 0.
\<close>

theorem zero_max_iterations_runs_trials:
  "computeModel first_index_model single_numerics (fresh_engine 1 0) [0] (0, 0, 0)
     = Inr (True,
            \<lparr>threshold = 1, max_iterations = 0, iterations = 1, inliers = [0], model = [0],
             model_coefficients = [0]\<rparr>, [0], (1, 1, 1)) \<and>
   computeModel slow_start_model single_numerics (fresh_engine 1 0) [0] (0, 0, 0)
     = Inr (True,
            \<lparr>threshold = 1, max_iterations = 0, iterations = 4, inliers = [0], model = [0],
             model_coefficients = [0]\<rparr>, [0], (4, 4, 1))"
proof
  show "computeModel first_index_model single_numerics (fresh_engine 1 0) [0] (0, 0, 0)
     = Inr (True,
            \<lparr>threshold = 1, max_iterations = 0, iterations = 1, inliers = [0], model = [0],
             model_coefficients = [0]\<rparr>, [0], (1, 1, 1))"
    by (simp add: run_defs first_index_model_def)
  show "computeModel slow_start_model single_numerics (fresh_engine 1 0) [0] (0, 0, 0)
     = Inr (True,
            \<lparr>threshold = 1, max_iterations = 0, iterations = 4, inliers = [0], model = [0],
             model_coefficients = [0]\<rparr>, [0], (4, 4, 1))"
    by (simp add: run_defs slow_start_model_def)
qed

end
